theory Spec2Isabelle
  imports Main "HOL-Library.AList"
begin

section \<open>The upload and polling layer of frontend/app.js\<close>

text \<open>
  The script keeps its state in module-level variables and reacts to events of the
  browser: a timer fires, a fetch settles, the user clicks. Only one handler runs at a
  time, and an \<^verbatim>\<open>async\<close> handler gives control back at every \<^verbatim>\<open>await\<close>. The model keeps the
  variables in a record, together with what the browser holds for the script: the table
  of live timers and the requests that have been sent and not yet answered. A handler is
  a function from state to state, and a handler that awaits a fetch is cut in two at the
  await: the part before it registers the request, the part after it runs when the
  response event for that request arrives.

  Statements that only touch the DOM (showing the overlay, marking a step as done,
  setting a progress text) are left out; what the user is told or shown as a result of
  the polling (alerts, a page being loaded, an analysis being requested) is appended to
  an effect log. The model covers navigation, the two uploads with their timers, the
  loading of an analysis with the timers of its score animations, deleting, and
  reopening a batch from the history. The chat, the standards page, saving and
  reindexing do not write the variables modelled here and are not part of the model.
\<close>

subsection \<open>Data\<close>

datatype page = Dashboard | Upload | Documents | Standards | History | Analysis | Chat

datatype job_status = Queued | Processing | Completed | Failed

text \<open>
  Identifiers are the numbers of the JSON payloads. A value that may be \<^verbatim>\<open>null\<close> or
  \<^verbatim>\<open>undefined\<close> is an option, \<open>None\<close> standing for both. JavaScript treats \<^verbatim>\<open>0\<close>, \<^verbatim>\<open>null\<close> and
  \<^verbatim>\<open>undefined\<close> as false in a condition.
\<close>

fun truthy :: "nat option \<Rightarrow> bool" where
  "truthy None = False"
| "truthy (Some n) = (n \<noteq> 0)"

text \<open>The closures handed to \<^verbatim>\<open>setInterval\<close> and \<^verbatim>\<open>setTimeout\<close>, with the variables they capture.\<close>

datatype callback =
    AgentStep nat
      \<comment> \<open>the step animation of uploadSingle and uploadBatch; the argument is its variable \<^verbatim>\<open>step\<close>\<close>
  | PollSingle "nat option"
      \<comment> \<open>the status poll of uploadSingle, capturing \<^verbatim>\<open>docId\<close>\<close>
  | PollBatch "nat option" "nat list"
      \<comment> \<open>the status poll of uploadBatch, capturing \<^verbatim>\<open>batchId\<close> and \<^verbatim>\<open>docIds\<close>\<close>
  | SingleDone "nat option"
      \<comment> \<open>the delayed closure of the completed branch of uploadSingle\<close>
  | BatchDone "nat option" "nat list"
      \<comment> \<open>the delayed closure of the completed branch of uploadBatch\<close>
  | DeletePause
      \<comment> \<open>the pause awaited by deleteDocument before it navigates\<close>
  | CardFill
      \<comment> \<open>the progress bar of the delete overlay: DOM only\<close>
  | RingFill
      \<comment> \<open>the score ring of loadAnalysis: DOM only\<close>
  | BarFill
      \<comment> \<open>a score bar of setBar: DOM only\<close>
  | NumberAnim nat int
      \<comment> \<open>the counter of animateNumber: the ticks it has run and its \<^verbatim>\<open>target\<close>\<close>

record timer =
  repeating :: bool
  delay :: nat
  action :: callback

text \<open>What an \<^verbatim>\<open>async\<close> function is waiting for: the request it sent, with its captured variables.\<close>

datatype await =
    UploadSingleReq
  | UploadBatchReq
  | StatusSingleReq "nat option"
  | StatusBatchReq "nat option" "nat list"
  | DeleteDocumentReq
  | DeleteHistoryReq
  | OpenBatchReq nat
  | LatestDocReq
  | AnalysisReq nat "nat option"
      \<comment> \<open>loadAnalysis waiting for the analysis, with \<^verbatim>\<open>docId\<close> and \<^verbatim>\<open>batchId\<close>\<close>
  | BatchTabsReq "(int \<times> int list) option"
      \<comment> \<open>loadAnalysis waiting for the batch behind the tabs, with the scores it has read\<close>

text \<open>
  The body of a response, as far as the script reads it. \<open>Garbled\<close> is a body that is
  not JSON (the argument is the message of the parser's exception). The others are JSON
  objects: \<open>Plain\<close> has at most an \<^verbatim>\<open>error\<close> field, \<open>Uploaded\<close> a \<^verbatim>\<open>document_id\<close>,
  \<open>UploadedBatch\<close> a \<^verbatim>\<open>batch_id\<close> and \<^verbatim>\<open>document_ids\<close>, \<open>DocSnap\<close> a \<^verbatim>\<open>document\<close> with its
  \<^verbatim>\<open>status\<close>, \<open>BatchSnap\<close> a \<^verbatim>\<open>batch\<close> with its \<^verbatim>\<open>status\<close> and \<^verbatim>\<open>documents\<close> with \<^verbatim>\<open>id\<close> and
  \<^verbatim>\<open>status\<close>, \<open>DocList\<close> \<^verbatim>\<open>documents\<close> with \<^verbatim>\<open>id\<close>, \<^verbatim>\<open>status\<close> and \<^verbatim>\<open>has_analysis\<close>, and
  \<open>AnalysisBody\<close> a \<^verbatim>\<open>document\<close> (its status is not read from this body) and an \<^verbatim>\<open>analysis\<close>,
  of which the model keeps the rounded overall score and the rounded scores of the
  eight bars in the order of the page.
\<close>

datatype body =
    Garbled string
  | Plain "string option"
  | Uploaded nat
  | UploadedBatch nat "nat list"
  | DocSnap job_status
  | BatchSnap job_status "(nat \<times> job_status) list"
  | DocList "(nat \<times> job_status \<times> bool) list"
  | AnalysisBody int "int list"

text \<open>
  What comes back: the fetch rejects (\<open>Broken\<close>, with the message of the exception), or
  it gives a response with its \<^verbatim>\<open>ok\<close> flag and its body.
\<close>

datatype response =
    Broken string
  | Reply bool body

text \<open>
  Reading a field of a body. A field that the body does not have reads as
  \<^verbatim>\<open>undefined\<close>; where the script writes \<^verbatim>\<open>x || []\<close> the reading is the empty list.
\<close>

fun garble_of :: "body \<Rightarrow> string option" where
  "garble_of (Garbled m) = Some m"
| "garble_of _ = None"

fun error_of :: "body \<Rightarrow> string option" where
  "error_of (Plain e) = e"
| "error_of _ = None"

fun document_id_of :: "body \<Rightarrow> nat option" where
  "document_id_of (Uploaded d) = Some d"
| "document_id_of _ = None"

fun batch_id_of :: "body \<Rightarrow> nat option" where
  "batch_id_of (UploadedBatch b ds) = Some b"
| "batch_id_of _ = None"

fun document_ids_of :: "body \<Rightarrow> nat list" where
  "document_ids_of (UploadedBatch b ds) = ds"
| "document_ids_of _ = []"

fun document_status_of :: "body \<Rightarrow> job_status option" where
  "document_status_of (DocSnap st) = Some st"
| "document_status_of _ = None"

fun batch_status_of :: "body \<Rightarrow> job_status option" where
  "batch_status_of (BatchSnap st docs) = Some st"
| "batch_status_of _ = None"

fun documents_of :: "body \<Rightarrow> (nat \<times> job_status \<times> bool) list" where
  "documents_of (BatchSnap st docs) = map (\<lambda>(i, st). (i, st, False)) docs"
| "documents_of (DocList docs) = docs"
| "documents_of _ = []"

fun has_document :: "body \<Rightarrow> bool" where
  "has_document (DocSnap st) = True"
| "has_document (AnalysisBody hero bars) = True"
| "has_document _ = False"

fun analysis_of :: "body \<Rightarrow> (int \<times> int list) option" where
  "analysis_of (AnalysisBody hero bars) = Some (hero, bars)"
| "analysis_of _ = None"

datatype effect =
    Alert string
  | LoadPage page
  | LoadAnalysis nat "nat option"

record app =
  currentPage :: page
  currentDocId :: "nat option"
  currentBatchId :: "nat option"
  currentBatchDocIds :: "nat list"
  processingInterval :: "nat option"
  agentStepInterval :: "nat option"
  agentSteps :: nat
    \<comment> \<open>the number of elements of class \<^verbatim>\<open>agent-step\<close> in the page\<close>
  timers :: "(nat \<times> timer) list"
  nextTimer :: nat
  inflight :: "(nat \<times> await) list"
  nextRequest :: nat
  effects :: "effect list"

definition init :: "nat \<Rightarrow> app" where
  "init n = \<lparr> currentPage = Dashboard, currentDocId = None, currentBatchId = None,
      currentBatchDocIds = [], processingInterval = None, agentStepInterval = None,
      agentSteps = n, timers = [], nextTimer = 1, inflight = [], nextRequest = 0,
      effects = [] \<rparr>"

subsection \<open>The browser's services\<close>

text \<open>
  \<^verbatim>\<open>setInterval\<close> and \<^verbatim>\<open>setTimeout\<close> draw their handles from one counter, and the handle
  returned is the old value of \<open>nextTimer\<close>. \<^verbatim>\<open>clearInterval\<close> of a handle that names no
  live timer, or of \<^verbatim>\<open>null\<close>, does nothing.
\<close>

definition setInterval :: "callback \<Rightarrow> nat \<Rightarrow> app \<Rightarrow> app" where
  "setInterval cb ms s =
     s\<lparr> timers := timers s @ [(nextTimer s, \<lparr> repeating = True, delay = ms, action = cb \<rparr>)],
        nextTimer := Suc (nextTimer s) \<rparr>"

definition setTimeout :: "callback \<Rightarrow> nat \<Rightarrow> app \<Rightarrow> app" where
  "setTimeout cb ms s =
     s\<lparr> timers := timers s @ [(nextTimer s, \<lparr> repeating = False, delay = ms, action = cb \<rparr>)],
        nextTimer := Suc (nextTimer s) \<rparr>"

definition clearInterval :: "nat option \<Rightarrow> app \<Rightarrow> app" where
  "clearInterval h s =
     (case h of None \<Rightarrow> s | Some i \<Rightarrow> s\<lparr> timers := AList.delete i (timers s) \<rparr>)"

definition fetch :: "await \<Rightarrow> app \<Rightarrow> app" where
  "fetch a s =
     s\<lparr> inflight := inflight s @ [(nextRequest s, a)], nextRequest := Suc (nextRequest s) \<rparr>"

definition alert :: "string \<Rightarrow> app \<Rightarrow> app" where
  "alert m s = s\<lparr> effects := effects s @ [Alert m] \<rparr>"

definition loadPage :: "page \<Rightarrow> app \<Rightarrow> app" where
  "loadPage p s = s\<lparr> effects := effects s @ [LoadPage p] \<rparr>"

text \<open>\<^verbatim>\<open>data.error || 'fallback'\<close>: a missing or empty error text gives the fallback.\<close>

definition orElse :: "string option \<Rightarrow> string \<Rightarrow> string" where
  "orElse e d = (case e of None \<Rightarrow> d | Some m \<Rightarrow> if m = [] then d else m)"

subsection \<open>resetUpload, loadAnalysis, navigateTo\<close>

definition resetUpload :: "app \<Rightarrow> app" where
  "resetUpload s =
     (let s1 = (if truthy (processingInterval s) then clearInterval (processingInterval s) s else s);
          s2 = (if truthy (agentStepInterval s1) then clearInterval (agentStepInterval s1) s1 else s1)
      in s2\<lparr> processingInterval := None, agentStepInterval := None \<rparr>)"

text \<open>
  loadAnalysis stores the document id and sends the request for the analysis; the log
  entry records the call with its two arguments.
\<close>

definition loadAnalysis :: "nat \<Rightarrow> nat option \<Rightarrow> app \<Rightarrow> app" where
  "loadAnalysis docId batchId s =
     fetch (AnalysisReq docId batchId)
       (s\<lparr> currentDocId := Some docId, effects := effects s @ [LoadAnalysis docId batchId] \<rparr>)"

text \<open>
  animateNumber starts a counter that adds a fortieth of its target on each tick and
  clears its own handle, a local constant, once the sum has reached the target. setBar
  schedules the bar and starts the counter of its number. The elements they look up
  are part of the page and are taken to exist.
\<close>

definition animateNumber :: "int \<Rightarrow> app \<Rightarrow> app" where
  "animateNumber target s = setInterval (NumberAnim 0 target) 25 s"

definition setBar :: "int \<Rightarrow> app \<Rightarrow> app" where
  "setBar val s = animateNumber val (setTimeout BarFill 100 s)"

text \<open>
  The part of loadAnalysis that draws the scores: the counter of the overall score, the
  ring, and the eight bars; a score that the analysis lacks counts as 0.
\<close>

definition eightBars :: "int list \<Rightarrow> int list" where
  "eightBars bars = take 8 (bars @ replicate 8 0)"

definition renderAnalysis :: "int \<Rightarrow> int list \<Rightarrow> app \<Rightarrow> app" where
  "renderAnalysis hero bars s =
     fold setBar (eightBars bars) (setTimeout RingFill 100 (animateNumber hero s))"

text \<open>
  Reading a score of an analysis that is \<^verbatim>\<open>undefined\<close> throws before any timer is started,
  and the \<^verbatim>\<open>catch\<close> of loadAnalysis only touches the DOM.
\<close>

definition drawScores :: "(int \<times> int list) option \<Rightarrow> app \<Rightarrow> app" where
  "drawScores a s = (case a of None \<Rightarrow> s | Some (hero, bars) \<Rightarrow> renderAnalysis hero bars s)"

text \<open>
  After the analysis has arrived: a fetch that rejects, a response that is not ok and a
  body without a document (reading its file name throws) leave the state as it is. In
  batch mode the batch is fetched for the tabs before the scores are drawn, and
  whatever that fetch gives, the scores are drawn after it.
\<close>

definition loadAnalysis_resume :: "nat \<Rightarrow> nat option \<Rightarrow> response \<Rightarrow> app \<Rightarrow> app" where
  "loadAnalysis_resume docId batchId r s =
     (case r of
        Broken m \<Rightarrow> s
      | Reply ok b \<Rightarrow>
          (if \<not> ok \<or> \<not> has_document b then s
           else if truthy batchId \<and> length (currentBatchDocIds s) > 1
                then fetch (BatchTabsReq (analysis_of b)) s
                else drawScores (analysis_of b) s))"

definition loadAnalysis_tabs :: "(int \<times> int list) option \<Rightarrow> response \<Rightarrow> app \<Rightarrow> app" where
  "loadAnalysis_tabs a r s = drawScores a s"

definition fetchLatestDocForAnalysis :: "app \<Rightarrow> app" where
  "fetchLatestDocForAnalysis s = fetch LatestDocReq s"

definition clearBatchContext :: "app \<Rightarrow> app" where
  "clearBatchContext s = s\<lparr> currentBatchId := None, currentBatchDocIds := [] \<rparr>"

text \<open>
  The second argument of navigateTo is \<open>None\<close> when the caller passes no document id. The
  value of an id is only read (\<open>the\<close>) after the test that it is truthy.
\<close>

definition navigateTo :: "page \<Rightarrow> nat option \<Rightarrow> app \<Rightarrow> app" where
  "navigateTo p docId s0 =
     (let s = s0\<lparr> currentPage := p \<rparr> in
      case p of
        Dashboard \<Rightarrow> loadPage Dashboard s
      | Upload \<Rightarrow> resetUpload s
      | Documents \<Rightarrow> loadPage Documents s
      | Standards \<Rightarrow> loadPage Standards s
      | History \<Rightarrow> loadPage History s
      | Analysis \<Rightarrow>
          (if truthy docId then
             (let s1 = (if truthy (currentBatchId s) \<and> the docId \<notin> set (currentBatchDocIds s)
                        then clearBatchContext s else s)
              in loadAnalysis (the docId) (currentBatchId s1) s1)
           else if truthy (currentDocId s) then
             loadAnalysis (the (currentDocId s)) (currentBatchId s) s
           else fetchLatestDocForAnalysis s)
      | Chat \<Rightarrow> loadPage Chat s)"

subsection \<open>uploadSingle and uploadBatch\<close>

text \<open>Up to the first await: the upload request is sent.\<close>

definition uploadSingle :: "app \<Rightarrow> app" where
  "uploadSingle s = fetch UploadSingleReq s"

definition uploadBatch :: "app \<Rightarrow> app" where
  "uploadBatch s = fetch UploadBatchReq s"

text \<open>
  After the upload response. The body is parsed before the \<^verbatim>\<open>ok\<close> flag is read; a fetch
  that rejects and a body that is not JSON end in the \<^verbatim>\<open>catch\<close>. With an ok response both
  recurring timers start, the animation first, whatever the body holds: the document id
  is read from it as it is.
\<close>

definition uploadSingle_resume :: "response \<Rightarrow> app \<Rightarrow> app" where
  "uploadSingle_resume r s =
     (case r of
        Broken m \<Rightarrow> resetUpload (alert (''Upload error: '' @ m) s)
      | Reply ok b \<Rightarrow>
          (case garble_of b of
             Some m \<Rightarrow> resetUpload (alert (''Upload error: '' @ m) s)
           | None \<Rightarrow>
               if \<not> ok then resetUpload (alert (orElse (error_of b) ''Upload failed'') s)
               else
                 (let s1 = setInterval (AgentStep 0) 3000 s;
                      s2 = s1\<lparr> agentStepInterval := Some (nextTimer s) \<rparr>;
                      s3 = setInterval (PollSingle (document_id_of b)) 3000 s2
                  in s3\<lparr> processingInterval := Some (nextTimer s2) \<rparr>)))"

definition uploadBatch_resume :: "response \<Rightarrow> app \<Rightarrow> app" where
  "uploadBatch_resume r s =
     (case r of
        Broken m \<Rightarrow> resetUpload (alert (''Batch upload error: '' @ m) s)
      | Reply ok b \<Rightarrow>
          (case garble_of b of
             Some m \<Rightarrow> resetUpload (alert (''Batch upload error: '' @ m) s)
           | None \<Rightarrow>
               if \<not> ok then resetUpload (alert (orElse (error_of b) ''Batch upload failed'') s)
               else
                 (let s1 = setInterval (AgentStep 0) 5000 s;
                      s2 = s1\<lparr> agentStepInterval := Some (nextTimer s) \<rparr>;
                      s3 = setInterval (PollBatch (batch_id_of b) (document_ids_of b)) 5000 s2
                  in s3\<lparr> processingInterval := Some (nextTimer s2) \<rparr>)))"

text \<open>
  The poll callbacks after their await. Everything sits in a \<^verbatim>\<open>try\<close> whose \<^verbatim>\<open>catch\<close>
  is empty, and the \<^verbatim>\<open>ok\<close> flag is not read: a fetch that rejects, a body that is not JSON
  and a body without the status all leave the state as it is.
\<close>

definition pollSingle_resume :: "nat option \<Rightarrow> response \<Rightarrow> app \<Rightarrow> app" where
  "pollSingle_resume docId r s =
     (case r of
        Broken m \<Rightarrow> s
      | Reply ok b \<Rightarrow>
          (case document_status_of b of
             Some Completed \<Rightarrow>
               setTimeout (SingleDone docId) 1200
                 (clearInterval (agentStepInterval s) (clearInterval (processingInterval s) s))
           | Some Failed \<Rightarrow>
               (let s1 = clearInterval (processingInterval s) s;
                    s2 = clearInterval (agentStepInterval s1) s1
                in resetUpload (alert ''Analysis failed. Please try again.'' s2))
           | _ \<Rightarrow> s))"

definition pollBatch_resume :: "nat option \<Rightarrow> nat list \<Rightarrow> response \<Rightarrow> app \<Rightarrow> app" where
  "pollBatch_resume batchId docIds r s =
     (case r of
        Broken m \<Rightarrow> s
      | Reply ok b \<Rightarrow>
          (case batch_status_of b of
             Some Completed \<Rightarrow>
               setTimeout (BatchDone batchId docIds) 2000
                 (clearInterval (agentStepInterval s) (clearInterval (processingInterval s) s))
           | Some Failed \<Rightarrow>
               (let s1 = clearInterval (processingInterval s) s;
                    s2 = clearInterval (agentStepInterval s1) s1
                in resetUpload (alert ''Batch analysis failed. Please try again.'' s2))
           | _ \<Rightarrow> s))"

subsection \<open>Deleting and reopening\<close>

definition deleteDocument :: "nat \<Rightarrow> bool \<Rightarrow> bool \<Rightarrow> app \<Rightarrow> app" where
  "deleteDocument docId confirmed hasCard s =
     (if \<not> confirmed then s
      else fetch DeleteDocumentReq
             (if hasCard then setTimeout CardFill 700 (setTimeout CardFill 300 s) else s))"

text \<open>
  With an ok response the body is not read and the pause starts; otherwise the body is
  parsed for its error text, and a body that is not JSON ends in the \<^verbatim>\<open>catch\<close>.
\<close>

definition deleteDocument_resume :: "response \<Rightarrow> app \<Rightarrow> app" where
  "deleteDocument_resume r s =
     (case r of
        Broken m \<Rightarrow> alert ''Failed to delete document'' s
      | Reply ok b \<Rightarrow>
          (if ok then setTimeout DeletePause 600 s
           else case garble_of b of
                  Some m \<Rightarrow> alert ''Failed to delete document'' s
                | None \<Rightarrow> alert (orElse (error_of b) ''Delete failed'') s))"

definition deleteDocument_finish :: "app \<Rightarrow> app" where
  "deleteDocument_finish s =
     (if currentPage s = Analysis then navigateTo Documents None s
      else navigateTo (currentPage s) None s)"

definition deleteHistoryItem :: "bool \<Rightarrow> nat \<Rightarrow> bool \<Rightarrow> app \<Rightarrow> app" where
  "deleteHistoryItem isBatch realId confirmed s =
     (if \<not> confirmed then s else fetch DeleteHistoryReq s)"

definition deleteHistoryItem_resume :: "response \<Rightarrow> app \<Rightarrow> app" where
  "deleteHistoryItem_resume r s =
     (case r of
        Broken m \<Rightarrow> alert (''Error: '' @ m) s
      | Reply ok b \<Rightarrow>
          (if ok then loadPage History s
           else case garble_of b of
                  Some m \<Rightarrow> alert (''Error: '' @ m) s
                | None \<Rightarrow> alert (''Failed to delete: '' @ orElse (error_of b) ''Unknown error'') s))"

definition openBatchFromHistory :: "nat \<Rightarrow> app \<Rightarrow> app" where
  "openBatchFromHistory batchId s = fetch (OpenBatchReq batchId) s"

definition openBatchFromHistory_resume :: "nat \<Rightarrow> response \<Rightarrow> app \<Rightarrow> app" where
  "openBatchFromHistory_resume batchId r s =
     (case r of
        Broken m \<Rightarrow> alert (''Error loading batch: '' @ m) s
      | Reply ok b \<Rightarrow>
          (if \<not> ok then alert ''Failed to load batch'' s
           else case garble_of b of
                  Some m \<Rightarrow> alert (''Error loading batch: '' @ m) s
                | None \<Rightarrow>
                    (case documents_of b of
                       [] \<Rightarrow> alert ''No documents in this batch'' s
                     | d # ds \<Rightarrow>
                         navigateTo Analysis (Some (fst d))
                           (s\<lparr> currentBatchId := Some batchId,
                               currentBatchDocIds := map fst (d # ds) \<rparr>))))"

definition fetchLatestDocForAnalysis_resume :: "response \<Rightarrow> app \<Rightarrow> app" where
  "fetchLatestDocForAnalysis_resume r s =
     (case r of
        Broken m \<Rightarrow> s
      | Reply ok b \<Rightarrow>
          (case filter (\<lambda>(i, st, has). st = Completed \<and> has) (documents_of b) of
             [] \<Rightarrow> s
           | d # ds \<Rightarrow> loadAnalysis (fst d) None s))"

subsection \<open>The event loop\<close>

text \<open>
  What each closure does when its timer fires; \<open>i\<close> is the handle of that timer. The
  step animation clears the handle in \<^verbatim>\<open>agentStepInterval\<close>; the counter of animateNumber
  clears its own. The counter is kept as the number of ticks, so that its sum has
  reached the target when that number times the target is at least forty times the
  target (the script adds in floating point, whose rounding can delay this by a tick).
\<close>

fun run :: "nat \<Rightarrow> callback \<Rightarrow> app \<Rightarrow> app" where
  "run i (AgentStep k) s =
     (if k < agentSteps s
      then s\<lparr> timers := AList.map_entry i (\<lambda>t. t\<lparr> action := AgentStep (Suc k) \<rparr>) (timers s) \<rparr>
      else clearInterval (agentStepInterval s) s)"
| "run i (PollSingle docId) s = fetch (StatusSingleReq docId) s"
| "run i (PollBatch batchId docIds) s = fetch (StatusBatchReq batchId docIds) s"
| "run i (SingleDone docId) s =
     navigateTo Analysis docId (clearBatchContext (resetUpload s))"
| "run i (BatchDone batchId docIds) s =
     (let s1 = (resetUpload s)\<lparr> currentBatchId := batchId, currentBatchDocIds := docIds \<rparr>
      in if length docIds > 0 then navigateTo Analysis (Some (hd docIds)) s1
         else navigateTo Documents None s1)"
| "run i DeletePause s = deleteDocument_finish s"
| "run i CardFill s = s"
| "run i RingFill s = s"
| "run i BarFill s = s"
| "run i (NumberAnim n target) s =
     (if int (Suc n) * target \<ge> 40 * target
      then clearInterval (Some i) s
      else s\<lparr> timers := AList.map_entry i (\<lambda>t. t\<lparr> action := NumberAnim (Suc n) target \<rparr>) (timers s) \<rparr>)"

fun resume :: "await \<Rightarrow> response \<Rightarrow> app \<Rightarrow> app" where
  "resume UploadSingleReq r s = uploadSingle_resume r s"
| "resume UploadBatchReq r s = uploadBatch_resume r s"
| "resume (StatusSingleReq docId) r s = pollSingle_resume docId r s"
| "resume (StatusBatchReq batchId docIds) r s = pollBatch_resume batchId docIds r s"
| "resume DeleteDocumentReq r s = deleteDocument_resume r s"
| "resume DeleteHistoryReq r s = deleteHistoryItem_resume r s"
| "resume (OpenBatchReq batchId) r s = openBatchFromHistory_resume batchId r s"
| "resume LatestDocReq r s = fetchLatestDocForAnalysis_resume r s"
| "resume (AnalysisReq docId batchId) r s = loadAnalysis_resume docId batchId r s"
| "resume (BatchTabsReq a) r s = loadAnalysis_tabs a r s"

datatype event =
    Fire nat
      \<comment> \<open>the timer with this handle is due\<close>
  | Respond nat response
      \<comment> \<open>the request with this number settles\<close>
  | Navigate page "nat option"
      \<comment> \<open>a click on the sidebar, a document card or a history row\<close>
  | ClickUploadSingle
  | ClickUploadBatch
  | ClickDeleteDocument nat bool bool
  | ClickDeleteHistoryItem bool nat bool
  | ClickOpenBatch nat

text \<open>
  A cleared timer never fires and a one-shot timer is gone once it has fired; a request
  settles once. Nothing in the script disables the button that starts an upload, so a
  click on it is an event of every state.
\<close>

fun step :: "event \<Rightarrow> app \<Rightarrow> app" where
  "step (Fire i) s =
     (case map_of (timers s) i of
        None \<Rightarrow> s
      | Some t \<Rightarrow>
          run i (action t)
            (if repeating t then s else s\<lparr> timers := AList.delete i (timers s) \<rparr>))"
| "step (Respond q r) s =
     (case map_of (inflight s) q of
        None \<Rightarrow> s
      | Some a \<Rightarrow> resume a r (s\<lparr> inflight := AList.delete q (inflight s) \<rparr>))"
| "step (Navigate p docId) s = navigateTo p docId s"
| "step ClickUploadSingle s = uploadSingle s"
| "step ClickUploadBatch s = uploadBatch s"
| "step (ClickDeleteDocument docId confirmed hasCard) s = deleteDocument docId confirmed hasCard s"
| "step (ClickDeleteHistoryItem isBatch realId confirmed) s = deleteHistoryItem isBatch realId confirmed s"
| "step (ClickOpenBatch batchId) s = openBatchFromHistory batchId s"

fun steps :: "event list \<Rightarrow> app \<Rightarrow> app" where
  "steps [] s = s"
| "steps (e # es) s = steps es (step e s)"

subsection \<open>Observations\<close>

text \<open>
  A timer is cancelled when its handle has been given out and names no live timer. The
  stage index of an animation timer is the value of its variable \<^verbatim>\<open>step\<close>. The batch
  context is the pair of \<^verbatim>\<open>currentBatchId\<close> and \<^verbatim>\<open>currentBatchDocIds\<close>.
\<close>

definition cancelled :: "nat \<Rightarrow> app \<Rightarrow> bool" where
  "cancelled i s = (i < nextTimer s \<and> map_of (timers s) i = None)"

definition stageIndex :: "nat \<Rightarrow> app \<Rightarrow> nat option" where
  "stageIndex i s =
     (case map_of (timers s) i of
        None \<Rightarrow> None
      | Some t \<Rightarrow> (case action t of AgentStep k \<Rightarrow> Some k | _ \<Rightarrow> None))"

definition batchContext :: "app \<Rightarrow> nat option \<times> nat list" where
  "batchContext s = (currentBatchId s, currentBatchDocIds s)"

text \<open>
  What is known of the stage index of the timer with handle \<open>a\<close> when the timer may have
  been cancelled in the meantime: if it is live, its index is \<open>j\<close>.
\<close>

definition stageAt :: "nat \<Rightarrow> nat \<Rightarrow> app \<Rightarrow> bool" where
  "stageAt a j s =
     (a < nextTimer s \<and>
      (case map_of (timers s) a of None \<Rightarrow> True | Some t \<Rightarrow> action t = AgentStep j))"

text \<open>The periods with which the two kinds of poll are registered.\<close>

definition pollDelaysOk :: "(nat \<times> timer) list \<Rightarrow> bool" where
  "pollDelaysOk ts =
     list_all (\<lambda>(i, t). case action t of
                            PollSingle d \<Rightarrow> delay t = 3000
                          | PollBatch b ds \<Rightarrow> delay t = 5000
                          | _ \<Rightarrow> True) ts"

text \<open>
  An event starts a submission when it is the ok response, with a body that parses, to
  a pending upload request: that is when uploadSingle and uploadBatch start their two
  timers and store the handles. A run of events is undisturbed when none of its events
  starts a submission.
\<close>

definition startsSubmission :: "event \<Rightarrow> app \<Rightarrow> bool" where
  "startsSubmission e s =
     (case e of
        Respond q (Reply ok b) \<Rightarrow>
          ok \<and> garble_of b = None \<and>
          (map_of (inflight s) q = Some UploadSingleReq \<or> map_of (inflight s) q = Some UploadBatchReq)
      | _ \<Rightarrow> False)"

fun undisturbed :: "event list \<Rightarrow> app \<Rightarrow> bool" where
  "undisturbed [] s = True"
| "undisturbed (e # es) s = (\<not> startsSubmission e s \<and> undisturbed es (step e s))"

text \<open>
  The two handles of a submission whose animation timer is \<open>a\<close> and whose poll timer is
  \<open>p\<close>, as long as no other submission has started: either the two variables still hold
  them, or the variables have been reset and both timers are cancelled.
\<close>

definition ownTimers :: "nat \<Rightarrow> nat \<Rightarrow> app \<Rightarrow> bool" where
  "ownTimers a p s =
     (0 < a \<and> 0 < p \<and> a < nextTimer s \<and> p < nextTimer s \<and>
      ((agentStepInterval s = Some a \<and> processingInterval s = Some p) \<or>
       (agentStepInterval s = None \<and> processingInterval s = None \<and>
        map_of (timers s) a = None \<and> map_of (timers s) p = None)))"

section \<open>Properties\<close>

lemmas op_defs = setInterval_def setTimeout_def clearInterval_def fetch_def alert_def loadPage_def
  orElse_def resetUpload_def loadAnalysis_def animateNumber_def setBar_def eightBars_def renderAnalysis_def
  drawScores_def loadAnalysis_resume_def loadAnalysis_tabs_def
  fetchLatestDocForAnalysis_def clearBatchContext_def
  navigateTo_def uploadSingle_def uploadBatch_def uploadSingle_resume_def uploadBatch_resume_def
  pollSingle_resume_def pollBatch_resume_def deleteDocument_def deleteDocument_resume_def
  deleteDocument_finish_def deleteHistoryItem_def deleteHistoryItem_resume_def
  openBatchFromHistory_def openBatchFromHistory_resume_def fetchLatestDocForAnalysis_resume_def

lemmas resume_defs = uploadSingle_resume_def uploadBatch_resume_def pollSingle_resume_def
  pollBatch_resume_def deleteDocument_resume_def deleteHistoryItem_resume_def
  openBatchFromHistory_resume_def fetchLatestDocForAnalysis_resume_def
  loadAnalysis_resume_def loadAnalysis_tabs_def

lemmas resume_splits = response.split option.split job_status.split list.split

subsection \<open>A cancelled timer stays cancelled\<close>

text \<open>
  Handles are handed out in increasing order and never reused, so no operation of the
  script brings a cancelled timer back, and the browser never fires it.
\<close>

lemma cancelled_update [simp]:
  "cancelled i (s\<lparr> currentPage := a1 \<rparr>) = cancelled i s"
  "cancelled i (s\<lparr> currentDocId := a2 \<rparr>) = cancelled i s"
  "cancelled i (s\<lparr> currentBatchId := a3 \<rparr>) = cancelled i s"
  "cancelled i (s\<lparr> currentBatchDocIds := a4 \<rparr>) = cancelled i s"
  "cancelled i (s\<lparr> processingInterval := a5 \<rparr>) = cancelled i s"
  "cancelled i (s\<lparr> agentStepInterval := a6 \<rparr>) = cancelled i s"
  "cancelled i (s\<lparr> inflight := a7 \<rparr>) = cancelled i s"
  "cancelled i (s\<lparr> nextRequest := a8 \<rparr>) = cancelled i s"
  "cancelled i (s\<lparr> effects := a9 \<rparr>) = cancelled i s"
  by (simp_all add: cancelled_def)

lemma map_of_delete_None: "map_of al i = None \<Longrightarrow> map_of (AList.delete k al) i = None"
  by (simp add: delete_conv')

lemma map_of_delete_same: "map_of (AList.delete k al) k = None"
  by (simp add: delete_conv')

lemma map_of_map_entry_None: "map_of al i = None \<Longrightarrow> map_of (AList.map_entry k f al) i = None"
  by (induction al) auto

lemma cancelled_delete [simp]:
  "cancelled i s \<Longrightarrow> cancelled i (s\<lparr> timers := AList.delete k (timers s) \<rparr>)"
  by (simp add: cancelled_def map_of_delete_None)

lemma cancelled_map_entry [simp]:
  "cancelled i s \<Longrightarrow> cancelled i (s\<lparr> timers := AList.map_entry k f (timers s) \<rparr>)"
  by (simp add: cancelled_def map_of_map_entry_None)

lemma cancelled_setInterval [simp]: "cancelled i s \<Longrightarrow> cancelled i (setInterval cb ms s)"
  by (auto simp: cancelled_def setInterval_def map_add_def)

lemma cancelled_setTimeout [simp]: "cancelled i s \<Longrightarrow> cancelled i (setTimeout cb ms s)"
  by (auto simp: cancelled_def setTimeout_def map_add_def)

lemma cancelled_clearInterval [simp]: "cancelled i s \<Longrightarrow> cancelled i (clearInterval h s)"
  by (simp add: clearInterval_def split: option.split)

lemma cancelled_fetch [simp]: "cancelled i s \<Longrightarrow> cancelled i (fetch a s)"
  by (simp add: fetch_def)

lemma cancelled_alert [simp]: "cancelled i s \<Longrightarrow> cancelled i (alert m s)"
  by (simp add: alert_def)

lemma cancelled_loadPage [simp]: "cancelled i s \<Longrightarrow> cancelled i (loadPage p s)"
  by (simp add: loadPage_def)

lemma cancelled_loadAnalysis [simp]: "cancelled i s \<Longrightarrow> cancelled i (loadAnalysis d b s)"
  by (simp add: loadAnalysis_def)

lemma cancelled_setBar [simp]: "cancelled i s \<Longrightarrow> cancelled i (setBar v s)"
  by (simp add: setBar_def animateNumber_def)

lemma cancelled_fold_setBar: "cancelled i s \<Longrightarrow> cancelled i (fold setBar vs s)"
  by (induction vs arbitrary: s) simp_all

lemma cancelled_drawScores [simp]: "cancelled i s \<Longrightarrow> cancelled i (drawScores a s)"
  by (simp add: drawScores_def renderAnalysis_def animateNumber_def cancelled_fold_setBar
        split: option.split)

lemma cancelled_clearBatchContext [simp]: "cancelled i s \<Longrightarrow> cancelled i (clearBatchContext s)"
  by (simp add: clearBatchContext_def)

lemma cancelled_resetUpload [simp]: "cancelled i s \<Longrightarrow> cancelled i (resetUpload s)"
  by (simp add: resetUpload_def Let_def)

lemma cancelled_navigateTo [simp]: "cancelled i s \<Longrightarrow> cancelled i (navigateTo p d s)"
  by (simp add: navigateTo_def Let_def fetchLatestDocForAnalysis_def split: page.split)

lemma cancelled_run [simp]: "cancelled i s \<Longrightarrow> cancelled i (run j cb s)"
  by (cases cb) (simp_all add: deleteDocument_finish_def Let_def)

lemma cancelled_resume [simp]: "cancelled i s \<Longrightarrow> cancelled i (resume a r s)"
  by (cases a) (simp_all add: resume_defs Let_def split: resume_splits)

lemma cancelled_step: "cancelled i s \<Longrightarrow> cancelled i (step e s)"
  by (cases e)
     (simp_all add: uploadSingle_def uploadBatch_def deleteDocument_def deleteHistoryItem_def
        openBatchFromHistory_def split: option.split)

lemma cancelled_steps: "cancelled i s \<Longrightarrow> cancelled i (steps es s)"
  by (induction es arbitrary: s) (simp_all add: cancelled_step)

lemma step_Fire_cancelled: "cancelled i s \<Longrightarrow> step (Fire i) s = s"
  by (simp add: cancelled_def)

subsection \<open>What the operations leave alone\<close>

lemma resetUpload_frame [simp]:
  "effects (resetUpload s) = effects s"
  "inflight (resetUpload s) = inflight s"
  "currentBatchId (resetUpload s) = currentBatchId s"
  "currentBatchDocIds (resetUpload s) = currentBatchDocIds s"
  "currentPage (resetUpload s) = currentPage s"
  "currentDocId (resetUpload s) = currentDocId s"
  "nextTimer (resetUpload s) = nextTimer s"
  "agentSteps (resetUpload s) = agentSteps s"
  "processingInterval (resetUpload s) = None"
  "agentStepInterval (resetUpload s) = None"
  by (simp_all add: resetUpload_def Let_def clearInterval_def split: option.split)

lemma clearInterval_frame [simp]:
  "nextTimer (clearInterval h s) = nextTimer s"
  "agentSteps (clearInterval h s) = agentSteps s"
  "effects (clearInterval h s) = effects s"
  "inflight (clearInterval h s) = inflight s"
  "processingInterval (clearInterval h s) = processingInterval s"
  "agentStepInterval (clearInterval h s) = agentStepInterval s"
  by (simp_all add: clearInterval_def split: option.split)

lemma timers_prims [simp]:
  "timers (fetch a s) = timers s"
  "timers (alert m s) = timers s"
  "timers (loadPage p s) = timers s"
  "timers (loadAnalysis d b s) = timers s"
  "timers (clearBatchContext s) = timers s"
  by (simp_all add: fetch_def alert_def loadPage_def loadAnalysis_def clearBatchContext_def)

lemma map_of_timers_resetUpload_None:
  "map_of (timers s) i = None \<Longrightarrow> map_of (timers (resetUpload s)) i = None"
  by (simp add: resetUpload_def Let_def clearInterval_def map_of_delete_None split: option.split)

lemma batchContext_update [simp]:
  "batchContext (s\<lparr> currentPage := a1 \<rparr>) = batchContext s"
  "batchContext (s\<lparr> currentDocId := a2 \<rparr>) = batchContext s"
  "batchContext (s\<lparr> processingInterval := a5 \<rparr>) = batchContext s"
  "batchContext (s\<lparr> agentStepInterval := a6 \<rparr>) = batchContext s"
  "batchContext (s\<lparr> timers := a7 \<rparr>) = batchContext s"
  "batchContext (s\<lparr> nextTimer := a8 \<rparr>) = batchContext s"
  "batchContext (s\<lparr> inflight := a9 \<rparr>) = batchContext s"
  "batchContext (s\<lparr> nextRequest := a10 \<rparr>) = batchContext s"
  "batchContext (s\<lparr> effects := a11 \<rparr>) = batchContext s"
  by (simp_all add: batchContext_def)

lemma batchContext_resetUpload [simp]: "batchContext (resetUpload s) = batchContext s"
  by (simp add: batchContext_def)

lemma batchContext_clearInterval [simp]: "batchContext (clearInterval h s) = batchContext s"
  by (simp add: batchContext_def clearInterval_def split: option.split)

lemma batchContext_prims [simp]:
  "batchContext (setInterval cb ms s) = batchContext s"
  "batchContext (setTimeout cb ms s) = batchContext s"
  "batchContext (fetch a s) = batchContext s"
  "batchContext (alert m s) = batchContext s"
  "batchContext (loadPage p s) = batchContext s"
  "batchContext (loadAnalysis d b s) = batchContext s"
  "batchContext (clearBatchContext s) = (None, [])"
  by (simp_all add: batchContext_def setInterval_def setTimeout_def fetch_def alert_def
        loadPage_def loadAnalysis_def clearBatchContext_def)

lemma navigateTo_analysis_context:
  assumes "docId \<noteq> 0"
  shows "batchContext (navigateTo Analysis (Some docId) s)
           = (if truthy (currentBatchId s) \<and> docId \<notin> set (currentBatchDocIds s)
              then (None, []) else batchContext s)"
    and "effects (navigateTo Analysis (Some docId) s)
           = effects s @ [LoadAnalysis docId
               (if truthy (currentBatchId s) \<and> docId \<notin> set (currentBatchDocIds s)
                then None else currentBatchId s)]"
  using assms
  by (simp_all add: navigateTo_def Let_def loadAnalysis_def fetch_def clearBatchContext_def
        batchContext_def)

subsection \<open>The number of stages is fixed\<close>

lemma agentSteps_prims [simp]:
  "agentSteps (setInterval cb ms s) = agentSteps s"
  "agentSteps (setTimeout cb ms s) = agentSteps s"
  "agentSteps (fetch a s) = agentSteps s"
  "agentSteps (alert m s) = agentSteps s"
  "agentSteps (loadPage p s) = agentSteps s"
  "agentSteps (loadAnalysis d b s) = agentSteps s"
  "agentSteps (clearBatchContext s) = agentSteps s"
  "agentSteps (setBar v s) = agentSteps s"
  by (simp_all add: setInterval_def setTimeout_def fetch_def alert_def loadPage_def
        loadAnalysis_def clearBatchContext_def setBar_def animateNumber_def)

lemma agentSteps_fold_setBar [simp]: "agentSteps (fold setBar vs s) = agentSteps s"
  by (induction vs arbitrary: s) simp_all

lemma agentSteps_drawScores [simp]: "agentSteps (drawScores a s) = agentSteps s"
  by (simp add: drawScores_def renderAnalysis_def animateNumber_def split: option.split)

lemma agentSteps_navigateTo [simp]: "agentSteps (navigateTo p d s) = agentSteps s"
  by (simp add: navigateTo_def Let_def fetchLatestDocForAnalysis_def split: page.split)

lemma agentSteps_run [simp]: "agentSteps (run i cb s) = agentSteps s"
  by (cases cb) (simp_all add: deleteDocument_finish_def Let_def)

lemma agentSteps_resume [simp]: "agentSteps (resume w r s) = agentSteps s"
  by (cases w) (simp_all add: resume_defs Let_def split: resume_splits)

lemma agentSteps_step [simp]: "agentSteps (step e s) = agentSteps s"
  by (cases e)
     (simp_all add: uploadSingle_def uploadBatch_def deleteDocument_def deleteHistoryItem_def
        openBatchFromHistory_def split: option.split)

lemma agentSteps_steps [simp]: "agentSteps (steps es s) = agentSteps s"
  by (induction es arbitrary: s) (simp_all del: step.simps)

lemma steps_append: "steps (es @ es') s = steps es' (steps es s)"
  by (induction es arbitrary: s) (simp_all del: step.simps)

subsection \<open>The stage index of a step animation\<close>

lemma stageAt_update [simp]:
  "stageAt a j (s\<lparr> currentPage := a1 \<rparr>) = stageAt a j s"
  "stageAt a j (s\<lparr> currentDocId := a2 \<rparr>) = stageAt a j s"
  "stageAt a j (s\<lparr> currentBatchId := a3 \<rparr>) = stageAt a j s"
  "stageAt a j (s\<lparr> currentBatchDocIds := a4 \<rparr>) = stageAt a j s"
  "stageAt a j (s\<lparr> processingInterval := a5 \<rparr>) = stageAt a j s"
  "stageAt a j (s\<lparr> agentStepInterval := a6 \<rparr>) = stageAt a j s"
  "stageAt a j (s\<lparr> inflight := a7 \<rparr>) = stageAt a j s"
  "stageAt a j (s\<lparr> nextRequest := a8 \<rparr>) = stageAt a j s"
  "stageAt a j (s\<lparr> effects := a9 \<rparr>) = stageAt a j s"
  by (simp_all add: stageAt_def)

lemma stageAt_delete [simp]:
  "stageAt a j s \<Longrightarrow> stageAt a j (s\<lparr> timers := AList.delete k (timers s) \<rparr>)"
  by (simp add: stageAt_def delete_conv')

lemma stageAt_map_entry_other:
  "stageAt a j s \<Longrightarrow> k \<noteq> a \<Longrightarrow> stageAt a j (s\<lparr> timers := AList.map_entry k f (timers s) \<rparr>)"
  by (simp add: stageAt_def map_of_map_entry)

lemma stageAt_setInterval [simp]: "stageAt a j s \<Longrightarrow> stageAt a j (setInterval cb ms s)"
  by (auto simp: stageAt_def setInterval_def map_add_def split: option.split)

lemma stageAt_setTimeout [simp]: "stageAt a j s \<Longrightarrow> stageAt a j (setTimeout cb ms s)"
  by (auto simp: stageAt_def setTimeout_def map_add_def split: option.split)

lemma stageAt_clearInterval [simp]: "stageAt a j s \<Longrightarrow> stageAt a j (clearInterval h s)"
  by (simp add: clearInterval_def split: option.split)

lemma stageAt_prims [simp]:
  "stageAt a j s \<Longrightarrow> stageAt a j (fetch r s)"
  "stageAt a j s \<Longrightarrow> stageAt a j (alert m s)"
  "stageAt a j s \<Longrightarrow> stageAt a j (loadPage p s)"
  "stageAt a j s \<Longrightarrow> stageAt a j (loadAnalysis d b s)"
  "stageAt a j s \<Longrightarrow> stageAt a j (clearBatchContext s)"
  "stageAt a j s \<Longrightarrow> stageAt a j (setBar v s)"
  by (simp_all add: fetch_def alert_def loadPage_def loadAnalysis_def clearBatchContext_def
        setBar_def animateNumber_def)

lemma stageAt_fold_setBar: "stageAt a j s \<Longrightarrow> stageAt a j (fold setBar vs s)"
  by (induction vs arbitrary: s) simp_all

lemma stageAt_drawScores [simp]: "stageAt a j s \<Longrightarrow> stageAt a j (drawScores w s)"
  by (simp add: drawScores_def renderAnalysis_def animateNumber_def stageAt_fold_setBar
        split: option.split)

lemma stageAt_resetUpload [simp]: "stageAt a j s \<Longrightarrow> stageAt a j (resetUpload s)"
  by (simp add: resetUpload_def Let_def)

lemma stageAt_navigateTo [simp]: "stageAt a j s \<Longrightarrow> stageAt a j (navigateTo p d s)"
  by (simp add: navigateTo_def Let_def fetchLatestDocForAnalysis_def split: page.split)

lemma stageAt_run_other:
  "stageAt a j s \<Longrightarrow> i \<noteq> a \<Longrightarrow> stageAt a j (run i cb s)"
  by (cases cb) (simp_all add: deleteDocument_finish_def Let_def stageAt_map_entry_other)

lemma stageAt_resume [simp]: "stageAt a j s \<Longrightarrow> stageAt a j (resume w r s)"
  by (cases w) (simp_all add: resume_defs Let_def split: resume_splits)

lemma stageAt_tick:
  assumes "stageAt a j s"
  shows "stageAt a (if j < agentSteps s then Suc j else j) (step (Fire a) s)"
proof (cases "map_of (timers s) a")
  case None
  then show ?thesis using assms by (simp add: stageAt_def)
next
  case (Some t)
  then have act: "action t = AgentStep j"
    using assms by (simp add: stageAt_def)
  show ?thesis
  proof (cases "repeating t")
    case True
    then show ?thesis
      using assms Some act
      by (auto simp: stageAt_def map_of_map_entry clearInterval_def delete_conv' split: option.split)
  next
    case False
    then show ?thesis
      using assms Some act
      by (auto simp: stageAt_def map_of_map_entry map_of_map_entry_None clearInterval_def delete_conv'
            split: option.split)
  qed
qed

lemma stageAt_step_other:
  assumes "stageAt a j s" and "e \<noteq> Fire a"
  shows "stageAt a j (step e s)"
proof (cases e)
  case (Fire i)
  then have "i \<noteq> a" using assms(2) by simp
  then show ?thesis
    using Fire assms(1) by (simp add: stageAt_run_other split: option.split)
next
  case (Respond q r)
  then show ?thesis using assms(1) by (simp split: option.split)
next
  case (Navigate p d)
  then show ?thesis using assms(1) by simp
next
  case ClickUploadSingle
  then show ?thesis using assms(1) by (simp add: uploadSingle_def)
next
  case ClickUploadBatch
  then show ?thesis using assms(1) by (simp add: uploadBatch_def)
next
  case (ClickDeleteDocument d c h)
  then show ?thesis using assms(1) by (simp add: deleteDocument_def)
next
  case (ClickDeleteHistoryItem b r c)
  then show ?thesis using assms(1) by (simp add: deleteHistoryItem_def)
next
  case (ClickOpenBatch b)
  then show ?thesis using assms(1) by (simp add: openBatchFromHistory_def)
qed

lemma stageAt_steps:
  assumes "stageAt a j s" and "j \<le> agentSteps s"
  shows "\<exists>j'. j \<le> j' \<and> j' \<le> agentSteps s \<and> j' \<le> j + count_list es (Fire a)
              \<and> stageAt a j' (steps es s)"
  using assms
proof (induction es arbitrary: s j)
  case Nil
  then show ?case by auto
next
  case (Cons e es)
  show ?case
  proof (cases "e = Fire a")
    case True
    let ?j1 = "if j < agentSteps s then Suc j else j"
    have 1: "stageAt a ?j1 (step e s)"
      using Cons.prems(1) True stageAt_tick by simp
    have 2: "?j1 \<le> agentSteps (step e s)"
      using Cons.prems(2) by (simp del: step.simps)
    from Cons.IH [OF 1 2] obtain j' where
      "?j1 \<le> j'" "j' \<le> agentSteps (step e s)" "j' \<le> ?j1 + count_list es (Fire a)"
      "stageAt a j' (steps es (step e s))"
      by blast
    then show ?thesis
      using True by (intro exI [of _ j']) (auto simp del: step.simps split: if_splits)
  next
    case False
    have 1: "stageAt a j (step e s)"
      using Cons.prems(1) False by (rule stageAt_step_other)
    have 2: "j \<le> agentSteps (step e s)"
      using Cons.prems(2) by (simp del: step.simps)
    from Cons.IH [OF 1 2] obtain j' where
      "j \<le> j'" "j' \<le> agentSteps (step e s)" "j' \<le> j + count_list es (Fire a)"
      "stageAt a j' (steps es (step e s))"
      by blast
    then show ?thesis
      using False by (intro exI [of _ j']) (auto simp del: step.simps)
  qed
qed

lemma stageIndex_never_decreases:
  assumes "a < nextTimer s" and "stageIndex a s = Some j" and "j \<le> agentSteps s"
    and "stageIndex a (steps es s) = Some j'"
  shows "j \<le> j' \<and> j' \<le> agentSteps s \<and> j' \<le> j + count_list es (Fire a)"
proof -
  have "stageAt a j s"
    using assms(1,2) by (auto simp: stageAt_def stageIndex_def split: option.splits callback.splits)
  from stageAt_steps [OF this assms(3), of es] obtain k where
    k: "j \<le> k" "k \<le> agentSteps s" "k \<le> j + count_list es (Fire a)" "stageAt a k (steps es s)"
    by blast
  have "k = j'"
    using k(4) assms(4) by (auto simp: stageAt_def stageIndex_def split: option.splits callback.splits)
  then show ?thesis using k by simp
qed

subsection \<open>The periods of the polls\<close>

lemma pollDelaysOk_delete: "pollDelaysOk ts \<Longrightarrow> pollDelaysOk (AList.delete k ts)"
  by (simp add: pollDelaysOk_def AList.delete_eq list_all_iff)

lemma pollDelaysOk_map_entry:
  "pollDelaysOk ts \<Longrightarrow> (\<forall>d. cb \<noteq> PollSingle d) \<Longrightarrow> (\<forall>b ds. cb \<noteq> PollBatch b ds)
     \<Longrightarrow> pollDelaysOk (AList.map_entry k (\<lambda>t. t\<lparr> action := cb \<rparr>) ts)"
  by (induction ts) (auto simp: pollDelaysOk_def split: callback.split)

lemma pollDelaysOk_clearInterval [simp]:
  "pollDelaysOk (timers s) \<Longrightarrow> pollDelaysOk (timers (clearInterval h s))"
  by (simp add: clearInterval_def pollDelaysOk_delete split: option.split)

lemma pollDelaysOk_append:
  "pollDelaysOk ts \<Longrightarrow> (\<forall>d. action t \<noteq> PollSingle d) \<Longrightarrow> (\<forall>b ds. action t \<noteq> PollBatch b ds)
     \<Longrightarrow> pollDelaysOk (ts @ [(i, t)])"
  by (auto simp: pollDelaysOk_def split: callback.split)

lemma pollDelaysOk_setTimeout [simp]:
  "pollDelaysOk (timers s) \<Longrightarrow> cb \<in> {SingleDone d, BatchDone b ds, DeletePause, CardFill, RingFill, BarFill}
     \<Longrightarrow> pollDelaysOk (timers (setTimeout cb ms s))"
  by (auto simp: setTimeout_def intro!: pollDelaysOk_append)

lemma pollDelaysOk_setBar [simp]:
  "pollDelaysOk (timers s) \<Longrightarrow> pollDelaysOk (timers (setBar v s))"
  by (simp add: setBar_def animateNumber_def setInterval_def setTimeout_def pollDelaysOk_def)

lemma pollDelaysOk_fold_setBar:
  "pollDelaysOk (timers s) \<Longrightarrow> pollDelaysOk (timers (fold setBar vs s))"
  by (induction vs arbitrary: s) simp_all

lemma pollDelaysOk_renderAnalysis:
  assumes "pollDelaysOk (timers s)"
  shows "pollDelaysOk (timers (renderAnalysis hero bars s))"
proof -
  have "pollDelaysOk (timers (setTimeout RingFill 100 (animateNumber hero s)))"
    using assms by (simp add: animateNumber_def setInterval_def setTimeout_def pollDelaysOk_def)
  then show ?thesis
    unfolding renderAnalysis_def by (rule pollDelaysOk_fold_setBar)
qed

lemma pollDelaysOk_drawScores [simp]:
  "pollDelaysOk (timers s) \<Longrightarrow> pollDelaysOk (timers (drawScores a s))"
  by (simp add: drawScores_def pollDelaysOk_renderAnalysis split: option.split)

lemma pollDelaysOk_resetUpload [simp]:
  "pollDelaysOk (timers s) \<Longrightarrow> pollDelaysOk (timers (resetUpload s))"
  by (simp add: resetUpload_def Let_def)

lemma pollDelaysOk_navigateTo [simp]:
  "pollDelaysOk (timers s) \<Longrightarrow> pollDelaysOk (timers (navigateTo p d s))"
  by (simp add: navigateTo_def Let_def fetchLatestDocForAnalysis_def split: page.split)

lemma pollDelaysOk_run: "pollDelaysOk (timers s) \<Longrightarrow> pollDelaysOk (timers (run i cb s))"
  by (cases cb) (simp_all add: deleteDocument_finish_def Let_def pollDelaysOk_map_entry)

lemma pollDelaysOk_upload:
  "pollDelaysOk (timers s) \<Longrightarrow> pollDelaysOk (timers (uploadSingle_resume r s))"
  "pollDelaysOk (timers s) \<Longrightarrow> pollDelaysOk (timers (uploadBatch_resume r s))"
  by (simp_all add: uploadSingle_resume_def uploadBatch_resume_def Let_def
        split: response.split option.split)
     (simp_all add: setInterval_def pollDelaysOk_def)

lemma pollDelaysOk_resume: "pollDelaysOk (timers s) \<Longrightarrow> pollDelaysOk (timers (resume a r s))"
  by (cases a)
     (simp_all add: pollDelaysOk_upload pollSingle_resume_def
        pollBatch_resume_def deleteDocument_resume_def deleteHistoryItem_resume_def
        openBatchFromHistory_resume_def fetchLatestDocForAnalysis_resume_def
        loadAnalysis_resume_def loadAnalysis_tabs_def Let_def
        split: resume_splits)

lemma pollDelaysOk_step:
  assumes ok: "pollDelaysOk (timers s)"
  shows "pollDelaysOk (timers (step e s))"
proof (cases e)
  case (Fire i)
  show ?thesis
  proof (cases "map_of (timers s) i")
    case None
    then show ?thesis using Fire ok by simp
  next
    case (Some t)
    have "pollDelaysOk (timers (if repeating t then s else s\<lparr> timers := AList.delete i (timers s) \<rparr>))"
      using ok by (simp add: pollDelaysOk_delete)
    then show ?thesis using Fire Some by (simp add: pollDelaysOk_run)
  qed
next
  case (Respond q r)
  then show ?thesis using ok by (simp add: pollDelaysOk_resume split: option.split)
next
  case (Navigate p d)
  then show ?thesis using ok by simp
next
  case ClickUploadSingle
  then show ?thesis using ok by (simp add: uploadSingle_def)
next
  case ClickUploadBatch
  then show ?thesis using ok by (simp add: uploadBatch_def)
next
  case (ClickDeleteDocument d c h)
  then show ?thesis using ok by (simp add: deleteDocument_def)
next
  case (ClickDeleteHistoryItem b r c)
  then show ?thesis using ok by (simp add: deleteHistoryItem_def)
next
  case (ClickOpenBatch b)
  then show ?thesis using ok by (simp add: openBatchFromHistory_def)
qed

lemma pollDelaysOk_steps: "pollDelaysOk (timers s) \<Longrightarrow> pollDelaysOk (timers (steps es s))"
  by (induction es arbitrary: s) (simp_all add: pollDelaysOk_step del: step.simps)

lemma pollDelaysOk_init: "pollDelaysOk (timers (steps es (init n)))"
  by (rule pollDelaysOk_steps) (simp add: init_def pollDelaysOk_def)

subsection \<open>The handles of a submission while no other submission starts\<close>

lemma ownTimers_update [simp]:
  "ownTimers a p (s\<lparr> currentPage := a1 \<rparr>) = ownTimers a p s"
  "ownTimers a p (s\<lparr> currentDocId := a2 \<rparr>) = ownTimers a p s"
  "ownTimers a p (s\<lparr> currentBatchId := a3 \<rparr>) = ownTimers a p s"
  "ownTimers a p (s\<lparr> currentBatchDocIds := a4 \<rparr>) = ownTimers a p s"
  "ownTimers a p (s\<lparr> inflight := a7 \<rparr>) = ownTimers a p s"
  "ownTimers a p (s\<lparr> nextRequest := a8 \<rparr>) = ownTimers a p s"
  "ownTimers a p (s\<lparr> effects := a9 \<rparr>) = ownTimers a p s"
  by (simp_all add: ownTimers_def)

lemma ownTimers_delete [simp]:
  "ownTimers a p s \<Longrightarrow> ownTimers a p (s\<lparr> timers := AList.delete k (timers s) \<rparr>)"
  by (auto simp: ownTimers_def map_of_delete_None)

lemma ownTimers_map_entry [simp]:
  "ownTimers a p s \<Longrightarrow> ownTimers a p (s\<lparr> timers := AList.map_entry k f (timers s) \<rparr>)"
  by (auto simp: ownTimers_def map_of_map_entry_None)

lemma ownTimers_setInterval [simp]: "ownTimers a p s \<Longrightarrow> ownTimers a p (setInterval cb ms s)"
  by (auto simp: ownTimers_def setInterval_def map_add_def)

lemma ownTimers_setTimeout [simp]: "ownTimers a p s \<Longrightarrow> ownTimers a p (setTimeout cb ms s)"
  by (auto simp: ownTimers_def setTimeout_def map_add_def)

lemma ownTimers_clearInterval [simp]: "ownTimers a p s \<Longrightarrow> ownTimers a p (clearInterval h s)"
  by (simp add: clearInterval_def split: option.split)

lemma ownTimers_prims [simp]:
  "ownTimers a p s \<Longrightarrow> ownTimers a p (fetch r s)"
  "ownTimers a p s \<Longrightarrow> ownTimers a p (alert m s)"
  "ownTimers a p s \<Longrightarrow> ownTimers a p (loadPage pg s)"
  "ownTimers a p s \<Longrightarrow> ownTimers a p (loadAnalysis d b s)"
  "ownTimers a p s \<Longrightarrow> ownTimers a p (clearBatchContext s)"
  "ownTimers a p s \<Longrightarrow> ownTimers a p (setBar v s)"
  by (simp_all add: fetch_def alert_def loadPage_def loadAnalysis_def clearBatchContext_def
        setBar_def animateNumber_def)

lemma ownTimers_fold_setBar: "ownTimers a p s \<Longrightarrow> ownTimers a p (fold setBar vs s)"
  by (induction vs arbitrary: s) simp_all

lemma ownTimers_drawScores [simp]: "ownTimers a p s \<Longrightarrow> ownTimers a p (drawScores w s)"
  by (simp add: drawScores_def renderAnalysis_def animateNumber_def ownTimers_fold_setBar
        split: option.split)

lemma ownTimers_resetUpload [simp]: "ownTimers a p s \<Longrightarrow> ownTimers a p (resetUpload s)"
  by (auto simp: ownTimers_def resetUpload_def Let_def clearInterval_def
        map_of_delete_same map_of_delete_None)

lemma ownTimers_navigateTo [simp]: "ownTimers a p s \<Longrightarrow> ownTimers a p (navigateTo pg d s)"
  by (simp add: navigateTo_def Let_def fetchLatestDocForAnalysis_def split: page.split)

lemma ownTimers_run [simp]: "ownTimers a p s \<Longrightarrow> ownTimers a p (run j cb s)"
  by (cases cb) (simp_all add: deleteDocument_finish_def Let_def)

lemma ownTimers_upload_refused:
  assumes "ownTimers a p s"
  shows "ownTimers a p (uploadSingle_resume (Broken m) s)"
    and "ownTimers a p (uploadBatch_resume (Broken m) s)"
    and "\<not> (ok \<and> garble_of b = None) \<Longrightarrow> ownTimers a p (uploadSingle_resume (Reply ok b) s)"
    and "\<not> (ok \<and> garble_of b = None) \<Longrightarrow> ownTimers a p (uploadBatch_resume (Reply ok b) s)"
  using assms
  by (auto simp: uploadSingle_resume_def uploadBatch_resume_def split: option.split)

lemma ownTimers_resume_other:
  assumes "ownTimers a p s" and "w \<noteq> UploadSingleReq" and "w \<noteq> UploadBatchReq"
  shows "ownTimers a p (resume w r s)"
  using assms
  by (cases w)
     (simp_all add: pollSingle_resume_def pollBatch_resume_def deleteDocument_resume_def
        deleteHistoryItem_resume_def openBatchFromHistory_resume_def
        fetchLatestDocForAnalysis_resume_def loadAnalysis_resume_def loadAnalysis_tabs_def
        Let_def split: resume_splits)

lemma ownTimers_step:
  assumes own: "ownTimers a p s" and quiet: "\<not> startsSubmission e s"
  shows "ownTimers a p (step e s)"
proof (cases e)
  case (Fire i)
  then show ?thesis using own by (simp split: option.split)
next
  case (Respond q r)
  show ?thesis
  proof (cases "map_of (inflight s) q")
    case None
    then show ?thesis using Respond own by simp
  next
    case (Some w)
    let ?s = "s\<lparr> inflight := AList.delete q (inflight s) \<rparr>"
    have own': "ownTimers a p ?s" using own by simp
    have "ownTimers a p (resume w r ?s)"
    proof (cases "w = UploadSingleReq \<or> w = UploadBatchReq")
      case False
      then show ?thesis using own' by (simp add: ownTimers_resume_other)
    next
      case True
      show ?thesis
      proof (cases r)
        case (Broken m)
        then show ?thesis using True own' by (auto simp: ownTimers_upload_refused)
      next
        case (Reply ok b)
        then have "\<not> (ok \<and> garble_of b = None)"
          using quiet Respond Some True by (auto simp: startsSubmission_def)
        then show ?thesis using True Reply own' by (auto simp: ownTimers_upload_refused)
      qed
    qed
    then show ?thesis using Respond Some by simp
  qed
next
  case (Navigate pg d)
  then show ?thesis using own by simp
next
  case ClickUploadSingle
  then show ?thesis using own by (simp add: uploadSingle_def)
next
  case ClickUploadBatch
  then show ?thesis using own by (simp add: uploadBatch_def)
next
  case (ClickDeleteDocument d c h)
  then show ?thesis using own by (simp add: deleteDocument_def)
next
  case (ClickDeleteHistoryItem b r c)
  then show ?thesis using own by (simp add: deleteHistoryItem_def)
next
  case (ClickOpenBatch b)
  then show ?thesis using own by (simp add: openBatchFromHistory_def)
qed

lemma ownTimers_steps: "ownTimers a p s \<Longrightarrow> undisturbed es s \<Longrightarrow> ownTimers a p (steps es s)"
  by (induction es arbitrary: s) (simp_all add: ownTimers_step del: step.simps)

text \<open>The start of a submission: the two timers it registers and the handles it stores.\<close>

lemma uploadSingle_starts:
  assumes "garble_of b = None"
  shows "uploadSingle_resume (Reply True b) s
           = s\<lparr> timers := timers s @
                   [(nextTimer s, \<lparr> repeating = True, delay = 3000, action = AgentStep 0 \<rparr>),
                    (Suc (nextTimer s),
                     \<lparr> repeating = True, delay = 3000, action = PollSingle (document_id_of b) \<rparr>)],
                nextTimer := Suc (Suc (nextTimer s)),
                agentStepInterval := Some (nextTimer s),
                processingInterval := Some (Suc (nextTimer s)) \<rparr>"
  using assms by (simp add: uploadSingle_resume_def setInterval_def Let_def)

lemma uploadBatch_starts:
  assumes "garble_of b = None"
  shows "uploadBatch_resume (Reply True b) s
           = s\<lparr> timers := timers s @
                   [(nextTimer s, \<lparr> repeating = True, delay = 5000, action = AgentStep 0 \<rparr>),
                    (Suc (nextTimer s),
                     \<lparr> repeating = True, delay = 5000,
                        action = PollBatch (batch_id_of b) (document_ids_of b) \<rparr>)],
                nextTimer := Suc (Suc (nextTimer s)),
                agentStepInterval := Some (nextTimer s),
                processingInterval := Some (Suc (nextTimer s)) \<rparr>"
  using assms by (simp add: uploadBatch_resume_def setInterval_def Let_def)

lemma ownTimers_start:
  assumes "0 < nextTimer s" and "garble_of b = None"
  shows "ownTimers (nextTimer s) (Suc (nextTimer s)) (uploadSingle_resume (Reply True b) s)"
    and "ownTimers (nextTimer s) (Suc (nextTimer s)) (uploadBatch_resume (Reply True b) s)"
  using assms by (simp_all add: uploadSingle_starts uploadBatch_starts ownTimers_def)

text \<open>What a terminal snapshot and a teardown do to the timers of such a submission.\<close>

lemma delete_absent: "map_of al k = None \<Longrightarrow> AList.delete k al = al"
  by (simp add: map_of_eq_None_iff)

lemma ownTimers_cleared:
  assumes "ownTimers a p s"
  shows "timers (clearInterval (agentStepInterval s) (clearInterval (processingInterval s) s))
           = AList.delete a (AList.delete p (timers s))"
  using assms
  by (auto simp: ownTimers_def clearInterval_def delete_absent)

lemma ownTimers_reset:
  assumes "ownTimers a p s"
  shows "timers (resetUpload s) = AList.delete a (AList.delete p (timers s))"
  using assms
  by (auto simp: ownTimers_def resetUpload_def Let_def clearInterval_def delete_absent)

lemma ownTimers_cancelled:
  assumes "ownTimers a p s" and "timers s' = AList.delete a (AList.delete p (timers s))"
    and "nextTimer s' = nextTimer s"
  shows "cancelled a s'" and "cancelled p s'"
  using assms by (simp_all add: ownTimers_def cancelled_def map_of_delete_same map_of_delete_None)

subsection \<open>Failed status queries\<close>

text \<open>
  C5. When the status query of a poll, single or batch, fails in transport, the only
  thing that changes is that the request is no longer pending: no timer is cancelled,
  neither handle changes, nothing is appended to the effect log (so no alert and no
  terminal handling), and the poll timer, still live, issues the next query when it
  fires again.
\<close>

theorem poll_transport_error_swallowed:
  assumes "map_of (inflight s) q = Some a"
      and "a = StatusSingleReq d \<or> a = StatusBatchReq b ds"
  shows "step (Respond q (Broken m)) s = s\<lparr> inflight := AList.delete q (inflight s) \<rparr>"
  using assms by (auto simp: pollSingle_resume_def pollBatch_resume_def)

theorem poll_transport_error_swallowed_witness:
  "map_of (inflight (steps [ClickUploadSingle, Respond 0 (Reply True (Uploaded 7)), Fire 2] (init 8))) 1
     = Some (StatusSingleReq (Some 7))
   \<and> step (Respond 1 (Broken ''offline''))
        (steps [ClickUploadSingle, Respond 0 (Reply True (Uploaded 7)), Fire 2] (init 8))
     = (steps [ClickUploadSingle, Respond 0 (Reply True (Uploaded 7)), Fire 2] (init 8))\<lparr> inflight := [] \<rparr>"
proof -
  have h: "map_of (inflight (steps [ClickUploadSingle, Respond 0 (Reply True (Uploaded 7)), Fire 2] (init 8))) 1
             = Some (StatusSingleReq (Some 7))"
    by (simp add: op_defs init_def)
  show ?thesis
    using h poll_transport_error_swallowed [OF h, of "Some 7" None "[]" "''offline''"]
    by (simp add: op_defs init_def)
qed

subsection \<open>Ticks and pending queries\<close>

text \<open>
  C4 (as amended). Every firing of the single-job poll timer sends one status query
  whether or not the earlier ones have been answered: after \<open>k\<close> ticks with no response
  in between, \<open>k\<close> more queries are pending, numbered in tick order. Polls of one job can
  overlap; only the processing of the responses is one at a time.
\<close>

theorem poll_ticks_do_not_wait:
  assumes "map_of (timers s) p = Some t" and "repeating t" and "action t = PollSingle d"
  shows "steps (replicate k (Fire p)) s
           = s\<lparr> inflight := inflight s @ map (\<lambda>j. (nextRequest s + j, StatusSingleReq d)) [0..<k],
                nextRequest := nextRequest s + k \<rparr>"
  using assms
proof (induction k arbitrary: s)
  case 0
  then show ?case by simp
next
  case (Suc k)
  let ?s1 = "fetch (StatusSingleReq d) s"
  have one: "step (Fire p) s = ?s1"
    using Suc.prems by simp
  have live: "map_of (timers ?s1) p = Some t"
    using Suc.prems by (simp add: fetch_def)
  have "steps (replicate (Suc k) (Fire p)) s = steps (replicate k (Fire p)) ?s1"
    using one by simp
  also have "\<dots> = ?s1\<lparr> inflight := inflight ?s1 @ map (\<lambda>j. (nextRequest ?s1 + j, StatusSingleReq d)) [0..<k],
                nextRequest := nextRequest ?s1 + k \<rparr>"
    using Suc.IH [OF live Suc.prems(2,3)] .
  also have "\<dots> = s\<lparr> inflight := inflight s @ map (\<lambda>j. (nextRequest s + j, StatusSingleReq d)) [0..<Suc k],
                nextRequest := nextRequest s + Suc k \<rparr>"
    by (simp add: fetch_def map_upt_Suc del: upt_Suc)
  finally show ?case .
qed

theorem poll_ticks_do_not_wait_witness:
  "map_of (timers (steps [ClickUploadSingle, Respond 0 (Reply True (Uploaded 7))] (init 8))) 2
     = Some \<lparr> repeating = True, delay = 3000, action = PollSingle (Some 7) \<rparr>
   \<and> inflight (steps (replicate 3 (Fire 2))
        (steps [ClickUploadSingle, Respond 0 (Reply True (Uploaded 7))] (init 8)))
     = [(1, StatusSingleReq (Some 7)), (2, StatusSingleReq (Some 7)), (3, StatusSingleReq (Some 7))]"
proof -
  let ?u = "steps [ClickUploadSingle, Respond 0 (Reply True (Uploaded 7))] (init 8)"
  let ?t = "\<lparr> repeating = True, delay = 3000, action = PollSingle (Some 7) \<rparr>"
  have h1: "map_of (timers ?u) 2 = Some ?t" by (simp add: op_defs init_def)
  have h2: "repeating ?t" by simp
  have h3: "action ?t = PollSingle (Some 7)" by simp
  have h4: "inflight ?u = []" "nextRequest ?u = 1" by (simp_all add: op_defs init_def)
  have "inflight (steps (replicate 3 (Fire 2)) ?u)
          = inflight ?u @ map (\<lambda>j. (nextRequest ?u + j, StatusSingleReq (Some 7))) [0..<3]"
    by (subst poll_ticks_do_not_wait [OF h1 h2 h3, of 3]) simp
  also have "\<dots> = [(1, StatusSingleReq (Some 7)), (2, StatusSingleReq (Some 7)),
                     (3, StatusSingleReq (Some 7))]"
    by (simp only: h4 upt_rec [of 0 3] upt_rec [of "Suc 0" 3] upt_rec [of "Suc (Suc 0)" 3]
          upt_rec [of "Suc (Suc (Suc 0))" 3]) simp
  finally show ?thesis using h1 by simp
qed

text \<open>The second tick's query is sent while the first is still unanswered.\<close>

theorem polls_overlap_counterexample:
  "inflight (steps [ClickUploadSingle, Respond 0 (Reply True (Uploaded 7)), Fire 2, Fire 2] (init 8))
     = [(1, StatusSingleReq (Some 7)), (2, StatusSingleReq (Some 7))]"
  by (simp add: op_defs init_def)

subsection \<open>The batch context\<close>

text \<open>
  C6. For a requested job id (a non-zero id, which is what navigateTo takes as a request
  for that job) and an active batch, navigateTo leaves the batch context untouched when
  the id is among the batch's member ids, and resets it to empty (no batch id, no
  member ids) exactly when the id is not among them; loadAnalysis is then called with
  the batch id as it is after the check, so the reset comes before the view is loaded.
\<close>

theorem navigateTo_analysis_membership:
  assumes "docId \<noteq> 0" and "truthy (currentBatchId s)"
  shows "batchContext (navigateTo Analysis (Some docId) s)
           = (if docId \<in> set (currentBatchDocIds s) then batchContext s else (None, []))
       \<and> (batchContext (navigateTo Analysis (Some docId) s) = (None, [])
            \<longleftrightarrow> docId \<notin> set (currentBatchDocIds s))
       \<and> effects (navigateTo Analysis (Some docId) s)
           = effects s @ [LoadAnalysis docId
               (if docId \<in> set (currentBatchDocIds s) then currentBatchId s else None)]"
proof -
  have active: "batchContext s \<noteq> (None, [])"
    using assms(2) by (auto simp: batchContext_def)
  show ?thesis
    using assms active by (simp add: navigateTo_analysis_context)
qed

text \<open>A batch of documents 3 and 4 reopened from the history: document 4 keeps it, document 9 clears it.\<close>

theorem navigateTo_analysis_membership_witness:
  "truthy (currentBatchId (steps [ClickOpenBatch 5,
             Respond 0 (Reply True (BatchSnap Completed [(3, Completed), (4, Completed)]))] (init 8)))
   \<and> batchContext (navigateTo Analysis (Some 4)
        (steps [ClickOpenBatch 5,
             Respond 0 (Reply True (BatchSnap Completed [(3, Completed), (4, Completed)]))] (init 8)))
      = (Some 5, [3, 4])
   \<and> batchContext (navigateTo Analysis (Some 9)
        (steps [ClickOpenBatch 5,
             Respond 0 (Reply True (BatchSnap Completed [(3, Completed), (4, Completed)]))] (init 8)))
      = (None, [])"
proof -
  let ?u = "steps [ClickOpenBatch 5,
             Respond 0 (Reply True (BatchSnap Completed [(3, Completed), (4, Completed)]))] (init 8)"
  have h: "truthy (currentBatchId ?u)" by (simp add: op_defs init_def)
  have m: "currentBatchDocIds ?u = [3, 4]" "batchContext ?u = (Some 5, [3, 4])"
    by (simp_all add: op_defs init_def batchContext_def)
  have n4: "(4::nat) \<noteq> 0" and n9: "(9::nat) \<noteq> 0" by simp_all
  show ?thesis
    using h navigateTo_analysis_membership [OF n4 h] navigateTo_analysis_membership [OF n9 h]
    by (simp only: m) simp
qed

text \<open>
  C10. A single-job submission leaves the batch context as it is when the upload is
  sent, whatever the upload response is, on every tick of its two timers, whatever the
  status response is (failed and completed included), and in resetUpload. Only the
  delayed closure that the completed branch schedules clears it.
\<close>

theorem batch_context_frame:
  "batchContext (uploadSingle s) = batchContext s
   \<and> batchContext (uploadSingle_resume r s) = batchContext s
   \<and> batchContext (pollSingle_resume d r s) = batchContext s
   \<and> batchContext (run i (AgentStep k) s) = batchContext s
   \<and> batchContext (run i (PollSingle d) s) = batchContext s
   \<and> batchContext (resetUpload s) = batchContext s
   \<and> batchContext (run i (SingleDone d) s) = (None, [])"
proof -
  have "batchContext (uploadSingle_resume r s) = batchContext s"
    by (simp add: uploadSingle_resume_def Let_def split: response.split option.split)
  moreover have "batchContext (pollSingle_resume d r s) = batchContext s"
    by (simp add: pollSingle_resume_def Let_def split: response.split option.split job_status.split)
  moreover have "batchContext (run i (SingleDone d) s) = (None, [])"
    by (simp add: navigateTo_def Let_def fetchLatestDocForAnalysis_def clearBatchContext_def
          loadAnalysis_def fetch_def batchContext_def)
  ultimately show ?thesis
    by (simp add: uploadSingle_def)
qed

subsection \<open>Deleting while a poll is running\<close>

text \<open>
  C8 (as amended). Deleting a job or a batch does not tear down any poller by itself.
  deleteHistoryItem leaves the timers as they are, when it sends its request and when
  the response arrives. deleteDocument only adds one-shot timers of its own behind the
  ones that exist; when it finishes it enters the current page again (the documents
  page if the analysis page is current), and so the timers held in the two handles are
  cancelled only if the upload page is current at that moment, through resetUpload.
\<close>

theorem delete_does_not_tear_down:
  "timers (deleteHistoryItem isBatch realId c s) = timers s
   \<and> timers (deleteHistoryItem_resume r s) = timers s
   \<and> take (length (timers s)) (timers (deleteDocument d c h s)) = timers s
   \<and> take (length (timers s)) (timers (deleteDocument_resume r s)) = timers s
   \<and> timers (deleteDocument_finish s)
       = (if currentPage s = Upload then timers (resetUpload s) else timers s)"
proof -
  have "timers (deleteHistoryItem_resume r s) = timers s"
    by (simp add: deleteHistoryItem_resume_def split: response.split option.split)
  moreover have "take (length (timers s)) (timers (deleteDocument_resume r s)) = timers s"
    by (simp add: deleteDocument_resume_def setTimeout_def split: response.split option.split)
  moreover have "take (length (timers s)) (timers (deleteDocument d c h s)) = timers s"
    by (simp add: deleteDocument_def setTimeout_def)
  moreover have "timers (deleteDocument_finish s)
       = (if currentPage s = Upload then timers (resetUpload s) else timers s)"
    by (cases "currentPage s")
       (simp_all add: deleteDocument_finish_def navigateTo_def Let_def fetchLatestDocForAnalysis_def
          resetUpload_def clearInterval_def split: option.split)
  ultimately show ?thesis by (simp add: deleteHistoryItem_def)
qed

text \<open>
  Document 7 is deleted from the documents page while its poll runs, and batch 5 is
  deleted from the history page while its poll runs: both polls are still live when the
  delete has finished.
\<close>

theorem delete_keeps_poll_counterexample:
  "map_of (timers (steps [ClickUploadSingle, Respond 0 (Reply True (Uploaded 7)),
                          Navigate Documents None, ClickDeleteDocument 7 True False,
                          Respond 1 (Reply True (Plain None)), Fire 3] (init 8))) 2
     = Some \<lparr> repeating = True, delay = 3000, action = PollSingle (Some 7) \<rparr>
   \<and> map_of (timers (steps [ClickUploadBatch, Respond 0 (Reply True (UploadedBatch 5 [7, 8])),
                          Navigate History None, ClickDeleteHistoryItem True 5 True,
                          Respond 1 (Reply True (Plain None))] (init 8))) 2
     = Some \<lparr> repeating = True, delay = 5000, action = PollBatch (Some 5) [7, 8] \<rparr>"
  by (simp add: op_defs init_def)

subsection \<open>Polling periods\<close>

text \<open>
  C9. In every state the script can reach, a live single-job poll timer has a period of
  3000 ms and a live batch poll timer has a period of 5000 ms, so every single-job
  poll ticks at a strictly shorter period than every batch poll.
\<close>

theorem single_poll_period_shorter:
  assumes "(i, t) \<in> set (timers (steps es (init n)))" and "action t = PollSingle d"
    and "(j, u) \<in> set (timers (steps es' (init m)))" and "action u = PollBatch b ds"
  shows "delay t = 3000 \<and> delay u = 5000 \<and> delay t < delay u"
proof -
  have "delay t = 3000"
    using pollDelaysOk_init [of es n] assms(1,2) by (auto simp: pollDelaysOk_def list_all_iff)
  moreover have "delay u = 5000"
    using pollDelaysOk_init [of es' m] assms(3,4) by (auto simp: pollDelaysOk_def list_all_iff)
  ultimately show ?thesis by simp
qed

theorem single_poll_period_shorter_witness:
  "(2, \<lparr> repeating = True, delay = 3000, action = PollSingle (Some 7) \<rparr>)
     \<in> set (timers (steps [ClickUploadSingle, Respond 0 (Reply True (Uploaded 7))] (init 8)))
   \<and> (2, \<lparr> repeating = True, delay = 5000, action = PollBatch (Some 5) [7, 8] \<rparr>)
     \<in> set (timers (steps [ClickUploadBatch, Respond 0 (Reply True (UploadedBatch 5 [7, 8]))] (init 8)))
   \<and> delay \<lparr> repeating = True, delay = 3000, action = PollSingle (Some 7) \<rparr>
       < delay \<lparr> repeating = True, delay = 5000, action = PollBatch (Some 5) [7, 8] \<rparr>"
proof -
  let ?t = "\<lparr> repeating = True, delay = 3000, action = PollSingle (Some 7) \<rparr>"
  let ?u = "\<lparr> repeating = True, delay = 5000, action = PollBatch (Some 5) [7, 8] \<rparr>"
  have h1: "(2, ?t) \<in> set (timers (steps [ClickUploadSingle, Respond 0 (Reply True (Uploaded 7))] (init 8)))"
    by (simp add: op_defs init_def)
  have h2: "action ?t = PollSingle (Some 7)" by simp
  have h3: "(2, ?u) \<in> set (timers (steps [ClickUploadBatch,
              Respond 0 (Reply True (UploadedBatch 5 [7, 8]))] (init 8)))"
    by (simp add: op_defs init_def)
  have h4: "action ?u = PollBatch (Some 5) [7, 8]" by simp
  from single_poll_period_shorter [OF h1 h2 h3 h4]
  show ?thesis using h1 h3 by blast
qed

subsection \<open>Terminal snapshots\<close>

lemma delete_twice:
  "AList.delete a (AList.delete p (AList.delete a (AList.delete p al)))
     = AList.delete a (AList.delete p al)"
  by (induction al) auto

lemma ownTimers_cleared_state:
  assumes "ownTimers a p s"
  shows "clearInterval (agentStepInterval s) (clearInterval (processingInterval s) s)
           = s\<lparr> timers := AList.delete a (AList.delete p (timers s)) \<rparr>"
proof -
  from assms consider
      (held) "agentStepInterval s = Some a" "processingInterval s = Some p"
    | (reset) "agentStepInterval s = None" "processingInterval s = None"
        "map_of (timers s) a = None" "map_of (timers s) p = None"
    by (auto simp: ownTimers_def)
  then show ?thesis
  proof cases
    case held
    then show ?thesis by (simp add: clearInterval_def)
  next
    case reset
    then show ?thesis by (simp add: clearInterval_def delete_absent)
  qed
qed

lemma ownTimers_failed_state:
  assumes "ownTimers a p s"
  shows "timers (resetUpload (alert m (s\<lparr> timers := AList.delete a (AList.delete p (timers s)) \<rparr>)))
           = AList.delete a (AList.delete p (timers s))"
proof -
  let ?u = "alert m (s\<lparr> timers := AList.delete a (AList.delete p (timers s)) \<rparr>)"
  have "ownTimers a p (s\<lparr> timers := AList.delete p (timers s) \<rparr>)"
    using assms by (rule ownTimers_delete)
  from ownTimers_delete [OF this, of a] have "ownTimers a p ?u"
    by simp
  then have "timers (resetUpload ?u) = AList.delete a (AList.delete p (timers ?u))"
    by (rule ownTimers_reset)
  then show ?thesis by (simp add: alert_def delete_twice)
qed

lemma terminal_single:
  assumes "ownTimers a p s"
  shows "timers (pollSingle_resume d (Reply ok (DocSnap Completed)) s)
           = AList.delete a (AList.delete p (timers s))
             @ [(nextTimer s, \<lparr> repeating = False, delay = 1200, action = SingleDone d \<rparr>)]"
    and "effects (pollSingle_resume d (Reply ok (DocSnap Completed)) s) = effects s"
    and "nextTimer (pollSingle_resume d (Reply ok (DocSnap Completed)) s) = Suc (nextTimer s)"
    and "timers (pollSingle_resume d (Reply ok (DocSnap Failed)) s)
           = AList.delete a (AList.delete p (timers s))"
    and "effects (pollSingle_resume d (Reply ok (DocSnap Failed)) s)
           = effects s @ [Alert ''Analysis failed. Please try again.'']"
    and "nextTimer (pollSingle_resume d (Reply ok (DocSnap Failed)) s) = nextTimer s"
proof -
  note c = ownTimers_cleared_state [OF assms]
  show "timers (pollSingle_resume d (Reply ok (DocSnap Completed)) s)
           = AList.delete a (AList.delete p (timers s))
             @ [(nextTimer s, \<lparr> repeating = False, delay = 1200, action = SingleDone d \<rparr>)]"
    by (simp add: pollSingle_resume_def c setTimeout_def)
  show "effects (pollSingle_resume d (Reply ok (DocSnap Completed)) s) = effects s"
    by (simp add: pollSingle_resume_def c setTimeout_def)
  show "nextTimer (pollSingle_resume d (Reply ok (DocSnap Completed)) s) = Suc (nextTimer s)"
    by (simp add: pollSingle_resume_def c setTimeout_def)
  show "timers (pollSingle_resume d (Reply ok (DocSnap Failed)) s)
           = AList.delete a (AList.delete p (timers s))"
    by (simp add: pollSingle_resume_def Let_def c ownTimers_failed_state [OF assms])
  show "effects (pollSingle_resume d (Reply ok (DocSnap Failed)) s)
           = effects s @ [Alert ''Analysis failed. Please try again.'']"
    by (simp add: pollSingle_resume_def Let_def alert_def)
  show "nextTimer (pollSingle_resume d (Reply ok (DocSnap Failed)) s) = nextTimer s"
    by (simp add: pollSingle_resume_def Let_def alert_def)
qed

lemma terminal_batch:
  assumes "ownTimers a p s"
  shows "timers (pollBatch_resume b ds (Reply ok (BatchSnap Completed docs)) s)
           = AList.delete a (AList.delete p (timers s))
             @ [(nextTimer s, \<lparr> repeating = False, delay = 2000, action = BatchDone b ds \<rparr>)]"
    and "effects (pollBatch_resume b ds (Reply ok (BatchSnap Completed docs)) s) = effects s"
    and "nextTimer (pollBatch_resume b ds (Reply ok (BatchSnap Completed docs)) s) = Suc (nextTimer s)"
    and "timers (pollBatch_resume b ds (Reply ok (BatchSnap Failed docs)) s)
           = AList.delete a (AList.delete p (timers s))"
    and "effects (pollBatch_resume b ds (Reply ok (BatchSnap Failed docs)) s)
           = effects s @ [Alert ''Batch analysis failed. Please try again.'']"
    and "nextTimer (pollBatch_resume b ds (Reply ok (BatchSnap Failed docs)) s) = nextTimer s"
proof -
  note c = ownTimers_cleared_state [OF assms]
  show "timers (pollBatch_resume b ds (Reply ok (BatchSnap Completed docs)) s)
           = AList.delete a (AList.delete p (timers s))
             @ [(nextTimer s, \<lparr> repeating = False, delay = 2000, action = BatchDone b ds \<rparr>)]"
    by (simp add: pollBatch_resume_def c setTimeout_def)
  show "effects (pollBatch_resume b ds (Reply ok (BatchSnap Completed docs)) s) = effects s"
    by (simp add: pollBatch_resume_def c setTimeout_def)
  show "nextTimer (pollBatch_resume b ds (Reply ok (BatchSnap Completed docs)) s) = Suc (nextTimer s)"
    by (simp add: pollBatch_resume_def c setTimeout_def)
  show "timers (pollBatch_resume b ds (Reply ok (BatchSnap Failed docs)) s)
           = AList.delete a (AList.delete p (timers s))"
    by (simp add: pollBatch_resume_def Let_def c ownTimers_failed_state [OF assms])
  show "effects (pollBatch_resume b ds (Reply ok (BatchSnap Failed docs)) s)
           = effects s @ [Alert ''Batch analysis failed. Please try again.'']"
    by (simp add: pollBatch_resume_def Let_def alert_def)
  show "nextTimer (pollBatch_resume b ds (Reply ok (BatchSnap Failed docs)) s) = nextTimer s"
    by (simp add: pollBatch_resume_def Let_def alert_def)
qed

lemma cancelled_after_deletes:
  assumes "ownTimers a p s" and "nextTimer s \<le> nextTimer s'"
    and "timers s' = AList.delete a (AList.delete p (timers s)) @ us"
    and "\<forall>k \<in> fst ` set us. nextTimer s \<le> k"
  shows "cancelled a s'" and "cancelled p s'"
proof -
  have lt: "a < nextTimer s" "p < nextTimer s"
    using assms(1) by (simp_all add: ownTimers_def)
  have "map_of us a = None" "map_of us p = None"
    using assms(4) lt by (auto simp: map_of_eq_None_iff)
  then show "cancelled a s'" "cancelled p s'"
    using assms(2,3) lt
    by (simp_all add: cancelled_def map_add_def map_of_delete_same map_of_delete_None)
qed

text \<open>
  The browser hands out positive handles: in every state the script reaches, the next
  handle is positive.
\<close>

lemma handles_positive: "0 < nextTimer (steps es (init n))"
  using cancelled_steps [of 0 "init n" es] by (simp add: cancelled_def init_def)

text \<open>
  A submission that is not disturbed owns the two handles it was given, from the answer
  to its upload onwards.
\<close>

lemma submission_owns:
  assumes "map_of (inflight s0) u = Some w" and "w = UploadSingleReq \<or> w = UploadBatchReq"
    and "0 < nextTimer s0" and "garble_of b0 = None"
    and "undisturbed es (step (Respond u (Reply True b0)) s0)"
  shows "ownTimers (nextTimer s0) (Suc (nextTimer s0)) (steps (Respond u (Reply True b0) # es) s0)"
proof -
  let ?s = "s0\<lparr> inflight := AList.delete u (inflight s0) \<rparr>"
  have "0 < nextTimer ?s" using assms(3) by simp
  from ownTimers_start [OF this assms(4)]
  have "ownTimers (nextTimer s0) (Suc (nextTimer s0)) (step (Respond u (Reply True b0)) s0)"
    using assms(1,2) by auto
  from ownTimers_steps [OF this assms(5)] show ?thesis by simp
qed




subsection \<open>Teardown\<close>




subsection \<open>Completion of a single job\<close>




subsection \<open>The animation timer\<close>

text \<open>
  A tick of the animation timer of a submission, as long as no other submission has
  started: below the number of stages the index goes up by one, and the tick that finds
  the index at the number of stages cancels the timer.
\<close>

lemma animator_tick_undisturbed:
  assumes "ownTimers a p s"
    and "map_of (timers s) a = Some \<lparr> repeating = True, delay = ms, action = AgentStep k \<rparr>"
  shows "stageIndex a (step (Fire a) s) = (if k < agentSteps s then Some (Suc k) else None)"
    and "\<not> k < agentSteps s \<Longrightarrow> cancelled a (step (Fire a) s)"
proof -
  have h: "agentStepInterval s = Some a" and lt: "a < nextTimer s"
    using assms by (auto simp: ownTimers_def)
  show "stageIndex a (step (Fire a) s) = (if k < agentSteps s then Some (Suc k) else None)"
    using assms(2) h
    by (simp add: stageIndex_def clearInterval_def map_of_map_entry delete_conv')
  show "cancelled a (step (Fire a) s)" if "\<not> k < agentSteps s"
    using that assms(2) h lt
    by (simp add: cancelled_def clearInterval_def delete_conv')
qed

text \<open>
  C7. The animation timer of a submission starts at stage index 0 and its index never
  goes down, but the tick that finds the index at the number of stages does not cancel
  the timer it belongs to: it cancels the timer that \<^verbatim>\<open>agentStepInterval\<close> names at that
  moment. With three stages, document 7 is submitted and then document 9 before any tick.
  The animation timer of document 7 has handle 1, that of document 9 has handle 3, and
  \<^verbatim>\<open>agentStepInterval\<close> holds 3. Three ticks of timer 1 bring its index to 3, the number
  of stages. Its fourth tick cancels timer 3, whose index is still 0, and after eight
  ticks timer 1 is still live at index 3. With document 7 alone the fourth tick cancels
  timer 1.
\<close>

theorem animator_cancels_latest_animator:
  "agentSteps (init 3) = 3
   \<and> stageIndex 1 (steps [ClickUploadSingle, Respond 0 (Reply True (Uploaded 7)),
                          ClickUploadSingle, Respond 1 (Reply True (Uploaded 9))] (init 3)) = Some 0
   \<and> stageIndex 1 (steps [ClickUploadSingle, Respond 0 (Reply True (Uploaded 7)),
                          ClickUploadSingle, Respond 1 (Reply True (Uploaded 9)),
                          Fire 1, Fire 1, Fire 1] (init 3)) = Some 3
   \<and> stageIndex 3 (steps [ClickUploadSingle, Respond 0 (Reply True (Uploaded 7)),
                          ClickUploadSingle, Respond 1 (Reply True (Uploaded 9)),
                          Fire 1, Fire 1, Fire 1] (init 3)) = Some 0
   \<and> stageIndex 1 (steps [ClickUploadSingle, Respond 0 (Reply True (Uploaded 7)),
                          ClickUploadSingle, Respond 1 (Reply True (Uploaded 9)),
                          Fire 1, Fire 1, Fire 1, Fire 1] (init 3)) = Some 3
   \<and> cancelled 3 (steps [ClickUploadSingle, Respond 0 (Reply True (Uploaded 7)),
                          ClickUploadSingle, Respond 1 (Reply True (Uploaded 9)),
                          Fire 1, Fire 1, Fire 1, Fire 1] (init 3))
   \<and> stageIndex 1 (steps [ClickUploadSingle, Respond 0 (Reply True (Uploaded 7)),
                          ClickUploadSingle, Respond 1 (Reply True (Uploaded 9)),
                          Fire 1, Fire 1, Fire 1, Fire 1, Fire 1, Fire 1, Fire 1, Fire 1] (init 3)) = Some 3
   \<and> cancelled 1 (steps [ClickUploadSingle, Respond 0 (Reply True (Uploaded 7)),
                          Fire 1, Fire 1, Fire 1, Fire 1] (init 3))"
  by (simp add: op_defs init_def stageIndex_def cancelled_def)

end
